theory Spec2Isabelle
  imports Complex_Main "HOL-Library.Sublist"
begin

section \<open>Python strings\<close>

text \<open>
  The dashboard in \<^verbatim>\<open>streamlit_app.py\<close> reads one row of the trait table and
  derives what it shows from string tests on the row's cells. This section models the
  Python string operations those tests use. A Python \<^verbatim>\<open>str\<close> is a \<^typ>\<open>string\<close>,
  and the sentinels the code looks for are ASCII.
\<close>

definition dquote :: char where
  "dquote = CHR 0x22"

definition squote :: char where
  "squote = CHR 0x27"

definition ascii_lowercase :: string where
  "ascii_lowercase = ''abcdefghijklmnopqrstuvwxyz''"

definition ascii_uppercase :: string where
  "ascii_uppercase = ''ABCDEFGHIJKLMNOPQRSTUVWXYZ''"

definition upper_char :: "char \<Rightarrow> char" where
  "upper_char c =
     (case map_of (zip ascii_lowercase ascii_uppercase) c of None \<Rightarrow> c | Some u \<Rightarrow> u)"

definition lower_char :: "char \<Rightarrow> char" where
  "lower_char c =
     (case map_of (zip ascii_uppercase ascii_lowercase) c of None \<Rightarrow> c | Some l \<Rightarrow> l)"

text \<open>
  \<^verbatim>\<open>s.upper()\<close> and \<^verbatim>\<open>s.lower()\<close>, as they act on ASCII text: the letters a to z
  and A to Z are mapped, every other character is kept. On text with other characters
  Python applies Unicode's case mapping, which may even lengthen the text (U+0149 becomes
  U+02BC followed by N); that mapping is not modelled. A statement that holds because both
  of its sides apply \<^verbatim>\<open>upper()\<close> to the same text does not depend on the mapping. A
  statement that relates the upper-case form of a text to its lower-case form does, and is
  made of ASCII text only, under the hypothesis \<open>is_ascii\<close> below.
\<close>

definition py_upper :: "string \<Rightarrow> string" where
  "py_upper s = map upper_char s"

definition py_lower :: "string \<Rightarrow> string" where
  "py_lower s = map lower_char s"

text \<open>\<^verbatim>\<open>s.isascii()\<close>: every character is below 128, that is, its top bit is clear.\<close>

definition is_ascii :: "string \<Rightarrow> bool" where
  "is_ascii s = list_all (\<lambda>c. \<not> digit7 c) s"

text \<open>
  \<^verbatim>\<open>s.strip(q)\<close> for a one-character argument: every leading and every trailing
  occurrence of \<open>q\<close> is removed, however many there are.
\<close>

definition py_strip :: "char \<Rightarrow> string \<Rightarrow> string" where
  "py_strip q s = rev (dropWhile (\<lambda>c. c = q) (rev (dropWhile (\<lambda>c. c = q) s)))"

text \<open>\<^verbatim>\<open>p in s\<close> on strings: \<open>p\<close> occurs in \<open>s\<close> as a contiguous, case-sensitive run.\<close>

fun py_in :: "string \<Rightarrow> string \<Rightarrow> bool" where
  "py_in p [] = (p = [])"
| "py_in p (c # cs) = (prefix p (c # cs) \<or> py_in p cs)"

section \<open>The trait row\<close>

text \<open>
  \<^verbatim>\<open>traits_row\<close> is the first row of the frame that \<^verbatim>\<open>load_gwas_traits\<close> returns.
  Its text columns are a map from the column name to the cell: a name outside the domain
  is a missing key, the cell \<open>None\<close> is SQL NULL, and \<open>Some s\<close> is the text \<open>s\<close>.
  The numeric column \<^verbatim>\<open>EXTRACTION_ACCURACY_PCT\<close> is kept apart; Python floats are
  modelled as reals.
\<close>

datatype py_error = KeyError | ZeroDivisionError | TypeError | JSONDecodeError | AttributeError

record traits_row =
  cells :: "string \<rightharpoonup> string option"
  extraction_accuracy_pct :: "real option"

text \<open>\<^verbatim>\<open>traits_row.get(field)\<close>: a missing key yields \<^verbatim>\<open>None\<close>.\<close>

definition row_get :: "traits_row \<Rightarrow> string \<Rightarrow> string option" where
  "row_get r field = (case cells r field of None \<Rightarrow> None | Some v \<Rightarrow> v)"

text \<open>\<^verbatim>\<open>traits_row[field]\<close>: a missing key raises \<^verbatim>\<open>KeyError\<close>.\<close>

definition row_item :: "traits_row \<Rightarrow> string \<Rightarrow> py_error + string option" where
  "row_item r field = (case cells r field of None \<Rightarrow> Inl KeyError | Some v \<Rightarrow> Inr v)"

text \<open>The truth value of a cell in \<^verbatim>\<open>if value:\<close>: \<^verbatim>\<open>None\<close> and the empty string are false.\<close>

definition truthy :: "string option \<Rightarrow> bool" where
  "truthy v = (case v of None \<Rightarrow> False | Some s \<Rightarrow> s \<noteq> [])"

text \<open>The literal list \<^verbatim>\<open>trait_field_names\<close>, written out three times in the source.\<close>

definition trait_field_names :: "string list" where
  "trait_field_names =
     [''TRAIT'', ''GERMPLASM_NAME'', ''GENOME_VERSION'', ''CHROMOSOME'', ''PHYSICAL_POSITION'',
      ''GENE'', ''SNP_NAME'', ''VARIANT_ID'', ''VARIANT_TYPE'', ''EFFECT_SIZE'',
      ''GWAS_MODEL'', ''EVIDENCE_TYPE'', ''ALLELE'', ''ANNOTATION'', ''CANDIDATE_REGION'']"

text \<open>\<^verbatim>\<open>str(value).strip('"').strip("'")\<close> on a text cell.\<close>

definition value_str :: "string \<Rightarrow> string" where
  "value_str v = py_strip squote (py_strip dquote v)"

section \<open>The completeness scorer, three times\<close>

text \<open>
  The scorer is written inline in three functions. Each copy is modelled on its own, with
  the field list as a parameter; the source runs every copy on \<^const>\<open>trait_field_names\<close>.
\<close>

subsection \<open>Sidebar: \<^verbatim>\<open>render_document_selector\<close>\<close>

definition selector_step :: "string option \<Rightarrow> nat \<Rightarrow> nat" where
  "selector_step v actual_found =
     (case v of
        None \<Rightarrow> actual_found
      | Some s \<Rightarrow>
          if s = [] then actual_found
          else if value_str s \<noteq> [] \<and> \<not> py_in ''NOT_FOUND'' (py_upper (value_str s))
               then actual_found + 1
               else actual_found)"

fun selector_loop :: "traits_row \<Rightarrow> string list \<Rightarrow> nat \<Rightarrow> nat" where
  "selector_loop r [] actual_found = actual_found"
| "selector_loop r (field # rest) actual_found =
     selector_loop r rest (selector_step (row_get r field) actual_found)"

text \<open>
  The sidebar divides without a guard:
  \<^verbatim>\<open>actual_accuracy = (actual_found / total_traits) * 100\<close>.
  The result is the pair shown as "Traits Extracted" and the number shown as "Accuracy".
\<close>

definition selector_stats :: "string list \<Rightarrow> traits_row \<Rightarrow> py_error + (nat \<times> nat \<times> real)" where
  "selector_stats names r =
     (let actual_found = selector_loop r names 0;
          total_traits = length names
      in if total_traits = 0 then Inl ZeroDivisionError
         else Inr (actual_found, total_traits,
                   (real actual_found / real total_traits) * 100))"

definition render_document_selector :: "traits_row \<Rightarrow> py_error + (nat \<times> nat \<times> real)" where
  "render_document_selector r = selector_stats trait_field_names r"

subsection \<open>Extracted-traits page: \<^verbatim>\<open>page_extracted_traits\<close>\<close>

text \<open>The source's \<^verbatim>\<open>is_valid\<close>, a test on the trimmed text.\<close>

definition is_valid :: "string \<Rightarrow> bool" where
  "is_valid vs =
     (vs \<noteq> [] \<and> \<not> py_in ''NOT_FOUND'' (py_upper vs) \<and> \<not> py_in ''NOT FOUND'' (py_upper vs))"

definition traits_step :: "string option \<Rightarrow> nat \<Rightarrow> nat" where
  "traits_step v actual_found =
     (case v of
        None \<Rightarrow> actual_found
      | Some s \<Rightarrow>
          if s = [] then actual_found
          else if is_valid (value_str s) then actual_found + 1
          else actual_found)"

fun traits_loop :: "traits_row \<Rightarrow> string list \<Rightarrow> nat \<Rightarrow> nat" where
  "traits_loop r [] actual_found = actual_found"
| "traits_loop r (field # rest) actual_found =
     traits_loop r rest (traits_step (row_get r field) actual_found)"

text \<open>
  \<^verbatim>\<open>actual_accuracy = (actual_found / total_traits) * 100 if total_traits > 0 else 0\<close>.
  The triple is \<open>(actual_found, total_traits, actual_accuracy)\<close>.
\<close>

definition traits_stats :: "string list \<Rightarrow> traits_row \<Rightarrow> nat \<times> nat \<times> real" where
  "traits_stats names r =
     (let actual_found = traits_loop r names 0;
          total_traits = length names;
          actual_accuracy =
            (if total_traits > 0 then (real actual_found / real total_traits) * 100 else 0)
      in (actual_found, total_traits, actual_accuracy))"

subsection \<open>Analytics page: \<^verbatim>\<open>page_analytics\<close>\<close>

definition analytics_step :: "string option \<Rightarrow> nat \<Rightarrow> nat" where
  "analytics_step v extracted =
     (case v of
        None \<Rightarrow> extracted
      | Some s \<Rightarrow>
          if s = [] then extracted
          else if value_str s \<noteq> [] \<and> \<not> py_in ''NOT_FOUND'' (py_upper (value_str s))
               then extracted + 1
               else extracted)"

fun analytics_loop :: "traits_row \<Rightarrow> string list \<Rightarrow> nat \<Rightarrow> nat" where
  "analytics_loop r [] extracted = extracted"
| "analytics_loop r (field # rest) extracted =
     analytics_loop r rest (analytics_step (row_get r field) extracted)"

text \<open>
  The bar chart's two counts, \<open>(extracted, not_reported)\<close>, and the number the page
  formats as "Extraction Accuracy":
  \<^verbatim>\<open>st.metric("Extraction Accuracy", f"{traits_row['EXTRACTION_ACCURACY_PCT']:.1f}%")\<close>.
  Formatting \<^verbatim>\<open>None\<close> with \<^verbatim>\<open>.1f\<close> raises \<^verbatim>\<open>TypeError\<close>.
\<close>

definition analytics_summary :: "string list \<Rightarrow> traits_row \<Rightarrow> nat \<times> nat" where
  "analytics_summary names r =
     (let extracted = analytics_loop r names 0;
          not_reported = length names - extracted
      in (extracted, not_reported))"

definition analytics_accuracy_metric :: "traits_row \<Rightarrow> py_error + real" where
  "analytics_accuracy_metric r =
     (case extraction_accuracy_pct r of None \<Rightarrow> Inl TypeError | Some pct \<Rightarrow> Inr pct)"

section \<open>The trait cards of \<^verbatim>\<open>page_extracted_traits\<close>\<close>

text \<open>
  \<^verbatim>\<open>trait_fields\<close> pairs a label with a lower-case column name (the third component,
  an icon, plays no part in any decision and is left out). The list has fourteen entries:
  \<^verbatim>\<open>evidence_type\<close> has no card, the page shows it in the statistics banner.
\<close>

definition trait_fields :: "(string \<times> string) list" where
  "trait_fields =
     [(''Trait'', ''trait''), (''Germplasm Name'', ''germplasm_name''),
      (''Genome Version'', ''genome_version''), (''Chromosome'', ''chromosome''),
      (''Physical Position'', ''physical_position''), (''Gene'', ''gene''),
      (''SNP Name'', ''snp_name''), (''Variant ID'', ''variant_id''),
      (''Variant Type'', ''variant_type''), (''Effect Size'', ''effect_size''),
      (''GWAS Model'', ''gwas_model''), (''Allele'', ''allele''),
      (''Annotation'', ''annotation''), (''Candidate Region'', ''candidate_region'')]"

text \<open>
  \<^verbatim>\<open>if value: value = str(value).strip('"').strip("'")\<close>: a false cell is left as it is.
\<close>

definition clean_value :: "string option \<Rightarrow> string option" where
  "clean_value v =
     (case v of None \<Rightarrow> None | Some s \<Rightarrow> if s = [] then Some [] else Some (value_str s))"

text \<open>The source's \<^verbatim>\<open>is_missing\<close>, on the cleaned value; \<^verbatim>\<open>or\<close> stops at \<^verbatim>\<open>not value\<close>.\<close>

definition is_missing :: "string option \<Rightarrow> bool" where
  "is_missing v =
     (case v of
        None \<Rightarrow> True
      | Some s \<Rightarrow>
          s = [] \<or> s = ''Not in paper'' \<or> py_in ''NOT_FOUND'' (py_upper s) \<or>
          py_in ''NOT FOUND'' (py_upper s) \<or> s = ''None'' \<or> s = ''NULL'')"

datatype card = NotFoundCard string | FoundCard string string

definition render_card :: "string \<Rightarrow> string option \<Rightarrow> card" where
  "render_card label v =
     (let v' = clean_value v
      in if is_missing v' then NotFoundCard label
         else (case v' of None \<Rightarrow> NotFoundCard label | Some s \<Rightarrow> FoundCard label s))"

text \<open>The card loop reads \<^verbatim>\<open>traits_row[field.upper()]\<close> and stops at a missing key.\<close>

fun render_cards :: "traits_row \<Rightarrow> (string \<times> string) list \<Rightarrow> py_error + card list" where
  "render_cards r [] = Inr []"
| "render_cards r ((label, field) # rest) =
     (case row_item r (py_upper field) of
        Inl e \<Rightarrow> Inl e
      | Inr v \<Rightarrow>
          (case render_cards r rest of
             Inl e \<Rightarrow> Inl e
           | Inr cs \<Rightarrow> Inr (render_card label v # cs)))"

fun is_found_card :: "card \<Rightarrow> bool" where
  "is_found_card (FoundCard label s) = True"
| "is_found_card (NotFoundCard label) = False"

text \<open>
  What the page shows, up to and including the card grid: the banner's
  "Traits Found" pair, its accuracy, its "Not Reported" count and its evidence type
  (\<^verbatim>\<open>traits_row['EVIDENCE_TYPE'] or "GWAS"\<close>), then the cards. The metadata section
  below the cards takes no part in the properties stated here and is not modelled.
\<close>

record traits_view =
  traits_found :: "nat \<times> nat"
  accuracy :: real
  not_reported :: nat
  evidence_type :: string
  trait_cards :: "card list"

definition page_extracted_traits :: "traits_row \<Rightarrow> py_error + traits_view" where
  "page_extracted_traits r =
     (case traits_stats trait_field_names r of
        (actual_found, total_traits, actual_accuracy) \<Rightarrow>
          (case row_item r ''EVIDENCE_TYPE'' of
             Inl e \<Rightarrow> Inl e
           | Inr ev \<Rightarrow>
               (case render_cards r trait_fields of
                  Inl e \<Rightarrow> Inl e
                | Inr cs \<Rightarrow>
                    Inr \<lparr>traits_found = (actual_found, total_traits),
                         accuracy = actual_accuracy,
                         not_reported = total_traits - actual_found,
                         evidence_type = (case ev of None \<Rightarrow> ''GWAS''
                                          | Some s \<Rightarrow> if s = [] then ''GWAS'' else s),
                         trait_cards = cs\<rparr>)))"

section \<open>Citations\<close>

text \<open>
  \<^verbatim>\<open>json.loads\<close> belongs to Python's standard library, not to this program, so its
  outcome on the citations text is an input of the model: the call raises, or returns a
  value that is not a \<^verbatim>\<open>dict\<close>, or returns a \<^verbatim>\<open>dict\<close>. The program reads a value
  of the dict only through \<^verbatim>\<open>str(v)\<close>, so the dict is the list of its items in
  insertion order, each value given as the text \<^verbatim>\<open>str(v)\<close> (the value itself when it
  is a string).
\<close>

datatype loads_outcome = Raises | NonDict | Dict "(string \<times> string) list"

text \<open>
  \<^verbatim>\<open>sum(1 for v in citations.values() if label in str(v))\<close>.
\<close>

definition label_count :: "string \<Rightarrow> (string \<times> string) list \<Rightarrow> nat" where
  "label_count label citations = sum_list [1. v \<leftarrow> map snd citations, py_in label v]"

text \<open>
  The body of the \<^verbatim>\<open>try\<close> block in \<^verbatim>\<open>page_analytics\<close>: the three counts handed to
  the bar chart, in the order Phase 1, Phase 2, LLM. A false cell skips the parser and
  stands for the empty dict; \<^verbatim>\<open>.values()\<close> on a value that is not a dict raises
  \<^verbatim>\<open>AttributeError\<close>.
\<close>

definition count_sources :: "traits_row \<Rightarrow> loads_outcome \<Rightarrow> py_error + (nat \<times> nat \<times> nat)" where
  "count_sources r loads =
     (case row_item r ''FIELD_CITATIONS'' of
        Inl e \<Rightarrow> Inl e
      | Inr text \<Rightarrow>
          (case (if truthy text then loads else Dict []) of
             Raises \<Rightarrow> Inl JSONDecodeError
           | NonDict \<Rightarrow> Inl AttributeError
           | Dict citations \<Rightarrow>
               Inr (label_count ''Phase1'' citations,
                    label_count ''Phase2'' citations,
                    label_count ''LLM'' citations)))"

text \<open>
  \<^verbatim>\<open>except Exception\<close> turns every error of the block into a warning; nothing leaves
  the panel as an exception.
\<close>

datatype sources_panel = BarChart nat nat nat | Warning string

definition extraction_sources :: "traits_row \<Rightarrow> loads_outcome \<Rightarrow> sources_panel" where
  "extraction_sources r loads =
     (case count_sources r loads of
        Inl e \<Rightarrow> Warning ''Could not parse citation data''
      | Inr (phase1_count, phase2_count, llm_count) \<Rightarrow>
          BarChart phase1_count phase2_count llm_count)"

text \<open>
  \<^verbatim>\<open>page_extracted_traits\<close> parses the same cell; its bare \<^verbatim>\<open>except\<close> replaces any
  failure, a missing key included, by the empty dict. A parsed value that is not a dict is
  kept as it is.
\<close>

definition parse_citations :: "traits_row \<Rightarrow> loads_outcome \<Rightarrow> loads_outcome" where
  "parse_citations r loads =
     (case row_item r ''FIELD_CITATIONS'' of
        Inl e \<Rightarrow> Dict []
      | Inr text \<Rightarrow>
          (case (if truthy text then loads else Dict []) of
             Raises \<Rightarrow> Dict []
           | NonDict \<Rightarrow> NonDict
           | Dict citations \<Rightarrow> Dict citations))"

section \<open>The specification's wording\<close>

text \<open>
  Two definitions follow the specification's sentences instead of the source, to be
  compared with the source's functions above. The first is its classification of a
  trimmed value: "not found" when, case-insensitively, the value is empty, equals
  \<^verbatim>\<open>none\<close>, \<^verbatim>\<open>null\<close> or \<^verbatim>\<open>not in paper\<close>, or contains \<^verbatim>\<open>not_found\<close> or
  \<^verbatim>\<open>not found\<close>.
\<close>

definition spec_not_found :: "string \<Rightarrow> bool" where
  "spec_not_found t =
     (let l = py_lower t
      in l = [] \<or> l = ''none'' \<or> l = ''null'' \<or> l = ''not in paper'' \<or>
         py_in ''not_found'' l \<or> py_in ''not found'' l)"

text \<open>
  The second is its trimming: one layer of quotes, that is, one leading and one trailing
  single or double quote character, where there is one.
\<close>

definition is_quote :: "char \<Rightarrow> bool" where
  "is_quote c = (c = dquote \<or> c = squote)"

definition drop_quote :: "string \<Rightarrow> string" where
  "drop_quote s = (case s of [] \<Rightarrow> [] | c # cs \<Rightarrow> if is_quote c then cs else s)"

definition spec_strip_one_layer :: "string \<Rightarrow> string" where
  "spec_strip_one_layer s = rev (drop_quote (rev (drop_quote s)))"

text \<open>The quote-trimmed value of a cell; a false cell has the empty one.\<close>

definition trimmed :: "string option \<Rightarrow> string" where
  "trimmed v = (case v of None \<Rightarrow> [] | Some s \<Rightarrow> value_str s)"

section \<open>Basic facts\<close>

lemmas char_defs = upper_char_def lower_char_def ascii_lowercase_def ascii_uppercase_def

lemmas eval_defs =
  row_get_def row_item_def value_str_def py_strip_def py_upper_def py_lower_def
  dquote_def squote_def char_defs

text \<open>\<^const>\<open>py_in\<close> is containment as a contiguous run.\<close>

lemma py_in_iff: "py_in p s \<longleftrightarrow> (\<exists>a b. s = a @ p @ b)"
proof (induction s)
  case Nil
  then show ?case by auto
next
  case (Cons c cs)
  show ?case
  proof
    assume "py_in p (c # cs)"
    then consider "prefix p (c # cs)" | "py_in p cs" by auto
    then show "\<exists>a b. c # cs = a @ p @ b"
    proof cases
      case 1
      then obtain b where "c # cs = p @ b" by (auto simp: prefix_def)
      then have "c # cs = [] @ p @ b" by simp
      then show ?thesis by blast
    next
      case 2
      then obtain a b where "cs = a @ p @ b" using Cons.IH by blast
      then have "c # cs = (c # a) @ p @ b" by simp
      then show ?thesis by blast
    qed
  next
    assume "\<exists>a b. c # cs = a @ p @ b"
    then obtain a b where ab: "c # cs = a @ p @ b" by blast
    show "py_in p (c # cs)"
    proof (cases a)
      case Nil
      then have "prefix p (c # cs)" using ab by (simp add: prefix_def)
      then show ?thesis by simp
    next
      case (Cons x a')
      then have "cs = a' @ p @ b" using ab by simp
      then have "py_in p cs" using Cons.IH by blast
      then show ?thesis by simp
    qed
  qed
qed

section \<open>The scorer on the specification's example\<close>

text \<open>
  C8. On the record \<open>{trait: "Plant height", gene: "NOT_FOUND", chromosome: ""}\<close> and the
  field list \<open>[trait, gene, chromosome]\<close> the scorer of the extracted-traits page returns
  one found field out of three, and an accuracy of \<open>100/3\<close>, which is 33.33 to two
  decimal places.
\<close>

theorem scorer_example:
  "traits_stats [''trait'', ''gene'', ''chromosome'']
     \<lparr>cells = [''trait'' \<mapsto> Some ''Plant height'', ''gene'' \<mapsto> Some ''NOT_FOUND'',
               ''chromosome'' \<mapsto> Some ''''],
      extraction_accuracy_pct = None\<rparr> = (1, 3, 100 / 3)
   \<and> \<bar>(100 / 3 :: real) - 33.33\<bar> < 0.005"
  by (simp add: traits_stats_def traits_step_def is_valid_def eval_defs)

section \<open>Rows and single steps\<close>

lemma row_get_update:
  "row_get (r\<lparr>cells := (cells r)(f \<mapsto> v)\<rparr>) g = (if g = f then v else row_get r g)"
  by (simp add: row_get_def)

lemma row_get_missing: "cells r f = None \<Longrightarrow> row_get r f = None"
  by (simp add: row_get_def)

lemma sentinel_steps:
  "traits_step (Some ''NOT_FOUND'') n = n"
  "selector_step (Some ''NOT_FOUND'') n = n"
  "analytics_step (Some ''NOT_FOUND'') n = n"
  by (simp_all add: traits_step_def selector_step_def analytics_step_def is_valid_def eval_defs)

lemma none_steps:
  "traits_step None n = n" "selector_step None n = n" "analytics_step None n = n"
  by (simp_all add: traits_step_def selector_step_def analytics_step_def)

section \<open>The accuracy and the empty field list\<close>

text \<open>
  C4. The scorer of the extracted-traits page returns \<open>100 * found_count / total\<close> when
  \<open>total > 0\<close> and \<open>0\<close> when the field list is empty, so it never divides by zero and an
  empty field list is not an error. The sidebar's copy divides without a guard, on the
  fixed list of fifteen names, so its division is by 15.
\<close>

theorem accuracy_guarded:
  "traits_stats names r =
     (traits_loop r names 0, length names,
      if length names > 0 then 100 * real (traits_loop r names 0) / real (length names) else 0)
   \<and> traits_stats [] r = (0, 0, 0)
   \<and> render_document_selector r =
       Inr (selector_loop r trait_field_names 0, 15,
            100 * real (selector_loop r trait_field_names 0) / 15)"
  by (simp add: traits_stats_def render_document_selector_def selector_stats_def Let_def
      trait_field_names_def)

section \<open>A missing key\<close>

text \<open>
  C7. When a field name is missing as a key of the record, the scorer does not count the
  field and does not fail: each of the three copies returns what it returns on the record
  that holds the sentinel \<open>NOT_FOUND\<close> under that name.
\<close>

theorem missing_key_is_absence:
  assumes "cells r field = None"
  shows "traits_step (row_get r field) n = n
    \<and> traits_loop r names n =
        traits_loop (r\<lparr>cells := (cells r)(field \<mapsto> Some ''NOT_FOUND'')\<rparr>) names n
    \<and> selector_loop r names n =
        selector_loop (r\<lparr>cells := (cells r)(field \<mapsto> Some ''NOT_FOUND'')\<rparr>) names n
    \<and> analytics_loop r names n =
        analytics_loop (r\<lparr>cells := (cells r)(field \<mapsto> Some ''NOT_FOUND'')\<rparr>) names n"
proof -
  let ?r' = "r\<lparr>cells := (cells r)(field \<mapsto> Some ''NOT_FOUND'')\<rparr>"
  have g: "row_get r field = None" using assms by (rule row_get_missing)
  have t: "traits_step (row_get ?r' f) k = traits_step (row_get r f) k" for f k
    by (simp add: row_get_update g sentinel_steps none_steps)
  have s: "selector_step (row_get ?r' f) k = selector_step (row_get r f) k" for f k
    by (simp add: row_get_update g sentinel_steps none_steps)
  have a: "analytics_step (row_get ?r' f) k = analytics_step (row_get r f) k" for f k
    by (simp add: row_get_update g sentinel_steps none_steps)
  have "traits_loop r names n = traits_loop ?r' names n"
    by (induction names arbitrary: n) (simp_all add: t)
  moreover have "selector_loop r names n = selector_loop ?r' names n"
    by (induction names arbitrary: n) (simp_all add: s)
  moreover have "analytics_loop r names n = analytics_loop ?r' names n"
    by (induction names arbitrary: n) (simp_all add: a)
  moreover have "traits_step (row_get r field) n = n" by (simp add: g none_steps)
  ultimately show ?thesis by simp
qed

theorem missing_key_is_absence_witness:
  "cells \<lparr>cells = [''GENE'' \<mapsto> Some ''BRCA1''], extraction_accuracy_pct = None\<rparr> ''TRAIT'' = None
   \<and> traits_loop \<lparr>cells = [''GENE'' \<mapsto> Some ''BRCA1''], extraction_accuracy_pct = None\<rparr>
        trait_field_names 0 = 1
   \<and> traits_loop \<lparr>cells = [''GENE'' \<mapsto> Some ''BRCA1'', ''TRAIT'' \<mapsto> Some ''NOT_FOUND''],
                    extraction_accuracy_pct = None\<rparr> trait_field_names 0 = 1"
proof -
  let ?r = "\<lparr>cells = [''GENE'' \<mapsto> Some ''BRCA1''], extraction_accuracy_pct = None\<rparr>"
  have h: "cells ?r ''TRAIT'' = None" by simp
  have v: "traits_loop ?r trait_field_names 0 = 1"
    by (simp add: trait_field_names_def traits_step_def is_valid_def eval_defs)
  from missing_key_is_absence [OF h, of 0 trait_field_names] v h show ?thesis by simp
qed

section \<open>The three copies against each other\<close>

text \<open>
  C9. The three copies of the scorer should count the same fields. They do not: only the
  copy of the extracted-traits page tests for \<open>NOT FOUND\<close> written with a space. On the
  row whose \<open>TRAIT\<close> cell is \<open>Not found\<close> the sidebar and the analytics page count one
  field, the extracted-traits page counts none, and the two accuracies differ.
\<close>

theorem copies_disagree:
  "selector_loop \<lparr>cells = [''TRAIT'' \<mapsto> Some ''Not found''], extraction_accuracy_pct = None\<rparr>
     trait_field_names 0 = 1
   \<and> analytics_loop \<lparr>cells = [''TRAIT'' \<mapsto> Some ''Not found''], extraction_accuracy_pct = None\<rparr>
     trait_field_names 0 = 1
   \<and> traits_loop \<lparr>cells = [''TRAIT'' \<mapsto> Some ''Not found''], extraction_accuracy_pct = None\<rparr>
     trait_field_names 0 = 0
   \<and> render_document_selector
       \<lparr>cells = [''TRAIT'' \<mapsto> Some ''Not found''], extraction_accuracy_pct = None\<rparr>
       = Inr (1, 15, 100 / 15)
   \<and> traits_stats trait_field_names
       \<lparr>cells = [''TRAIT'' \<mapsto> Some ''Not found''], extraction_accuracy_pct = None\<rparr>
       = (0, 15, 0)"
  by (simp add: trait_field_names_def traits_step_def selector_step_def analytics_step_def
      render_document_selector_def selector_stats_def traits_stats_def is_valid_def eval_defs)

section \<open>The accuracy on display\<close>

text \<open>
  C2. The accuracy on display should be the recomputed one, never the stored
  \<open>extraction_accuracy_pct\<close>. The analytics page formats the stored value: on a row with
  no trait found and a stored accuracy of 100, the sidebar and the extracted-traits page
  show 0 and the analytics page shows 100.
\<close>

theorem analytics_shows_stored_accuracy:
  "analytics_accuracy_metric \<lparr>cells = Map.empty, extraction_accuracy_pct = Some 100\<rparr> = Inr 100
   \<and> render_document_selector \<lparr>cells = Map.empty, extraction_accuracy_pct = Some 100\<rparr>
       = Inr (0, 15, 0)
   \<and> traits_stats trait_field_names \<lparr>cells = Map.empty, extraction_accuracy_pct = Some 100\<rparr>
       = (0, 15, 0)"
  by (simp add: analytics_accuracy_metric_def render_document_selector_def selector_stats_def
      traits_stats_def trait_field_names_def traits_step_def selector_step_def row_get_def)

section \<open>The citation source tally\<close>

lemma label_count_filter:
  "label_count label citations = length (filter (py_in label) (map snd citations))"
  unfolding label_count_def by (induction citations) auto

lemma count_sources_dict:
  "count_sources (r\<lparr>cells := (cells r)(''FIELD_CITATIONS'' \<mapsto> Some (c # cs))\<rparr>) (Dict citations)
     = Inr (label_count ''Phase1'' citations, label_count ''Phase2'' citations,
            label_count ''LLM'' citations)"
  by (simp add: count_sources_def row_item_def truthy_def)

text \<open>
  C5. For each label the tally is the number of values of the parsed mapping whose text
  contains the label as a contiguous, case-sensitive run; the three labels are counted
  independently, so one value may count for several. On the specification's example,
  whose text parses to the two-entry dict given here, the tally is 2 for \<open>Phase1\<close>,
  1 for \<open>Phase2\<close> (and 0 for \<open>LLM\<close>).
\<close>

theorem tally_counts_by_containment:
  \<open>label_count label citations =
     length (filter (\<lambda>v. \<exists>a b. v = a @ label @ b) (map snd citations))
   \<and> extraction_sources (r\<lparr>cells := (cells r)(''FIELD_CITATIONS'' \<mapsto> Some (c # cs))\<rparr>)
        (Dict citations)
      = BarChart (label_count ''Phase1'' citations) (label_count ''Phase2'' citations)
          (label_count ''LLM'' citations)
   \<and> extraction_sources
        \<lparr>cells = [''FIELD_CITATIONS'' \<mapsto>
                    Some ''{"gene":"Phase1 extraction","trait":"Phase1/Phase2 consensus"}''],
          extraction_accuracy_pct = None\<rparr>
        (Dict [(''gene'', ''Phase1 extraction''), (''trait'', ''Phase1/Phase2 consensus'')])
      = BarChart 2 1 0\<close>
proof -
  have "label_count label citations =
     length (filter (\<lambda>v. \<exists>a b. v = a @ label @ b) (map snd citations))"
  proof -
    have "py_in label = (\<lambda>v. \<exists>a b. v = a @ label @ b)"
      by (rule ext) (rule py_in_iff)
    then show ?thesis by (simp add: label_count_filter)
  qed
  moreover have "extraction_sources
        (r\<lparr>cells := (cells r)(''FIELD_CITATIONS'' \<mapsto> Some (c # cs))\<rparr>) (Dict citations)
      = BarChart (label_count ''Phase1'' citations) (label_count ''Phase2'' citations)
          (label_count ''LLM'' citations)"
    by (simp add: extraction_sources_def count_sources_dict)
  moreover have \<open>extraction_sources
        \<lparr>cells = [''FIELD_CITATIONS'' \<mapsto>
                    Some ''{"gene":"Phase1 extraction","trait":"Phase1/Phase2 consensus"}''],
          extraction_accuracy_pct = None\<rparr>
        (Dict [(''gene'', ''Phase1 extraction''), (''trait'', ''Phase1/Phase2 consensus'')])
      = BarChart 2 1 0\<close>
    by (simp add: extraction_sources_def count_sources_def row_item_def truthy_def
        label_count_def)
  ultimately show ?thesis by simp
qed

text \<open>
  C3, as stated, asks for an all-zero tally also when the citations text fails to parse.
  On the malformed text \<open>{not valid\<close>, which the parser rejects, the analytics page
  produces no tally: it shows a warning in place of the chart.
\<close>

theorem malformed_citations_counterexample:
  "extraction_sources
     \<lparr>cells = [''FIELD_CITATIONS'' \<mapsto> Some ''{not valid''], extraction_accuracy_pct = None\<rparr>
     Raises = Warning ''Could not parse citation data''
   \<and> extraction_sources
     \<lparr>cells = [''FIELD_CITATIONS'' \<mapsto> Some ''{not valid''], extraction_accuracy_pct = None\<rparr>
     Raises \<noteq> BarChart 0 0 0"
  by (simp add: extraction_sources_def count_sources_def row_item_def truthy_def)

text \<open>
  C3, amended. When the citations cell is NULL or empty the tally is zero for every label.
  When the text fails to parse, or parses to something that is not a JSON object, the
  analytics page produces no tally and shows the warning "Could not parse citation data".
  In every case the panel is a chart or that warning: no exception reaches the caller.
  The extracted-traits page, which parses the same cell and does not tally, falls back to
  the empty mapping on a NULL or empty cell and on a parse failure.
\<close>

theorem citations_degrade:
  "extraction_sources (r\<lparr>cells := (cells r)(''FIELD_CITATIONS'' \<mapsto> None)\<rparr>) loads = BarChart 0 0 0
   \<and> extraction_sources (r\<lparr>cells := (cells r)(''FIELD_CITATIONS'' \<mapsto> Some [])\<rparr>) loads
       = BarChart 0 0 0
   \<and> extraction_sources (r\<lparr>cells := (cells r)(''FIELD_CITATIONS'' \<mapsto> Some (c # cs))\<rparr>) Raises
       = Warning ''Could not parse citation data''
   \<and> extraction_sources (r\<lparr>cells := (cells r)(''FIELD_CITATIONS'' \<mapsto> Some (c # cs))\<rparr>) NonDict
       = Warning ''Could not parse citation data''
   \<and> ((\<exists>p1 p2 llm. extraction_sources r loads = BarChart p1 p2 llm)
        \<or> extraction_sources r loads = Warning ''Could not parse citation data'')
   \<and> parse_citations (r\<lparr>cells := (cells r)(''FIELD_CITATIONS'' \<mapsto> None)\<rparr>) loads = Dict []
   \<and> parse_citations (r\<lparr>cells := (cells r)(''FIELD_CITATIONS'' \<mapsto> Some [])\<rparr>) loads = Dict []
   \<and> parse_citations (r\<lparr>cells := (cells r)(''FIELD_CITATIONS'' \<mapsto> Some (c # cs))\<rparr>) Raises
       = Dict []"
proof -
  have total: "(\<exists>p1 p2 llm. extraction_sources r loads = BarChart p1 p2 llm)
        \<or> extraction_sources r loads = Warning ''Could not parse citation data''"
    by (cases "count_sources r loads") (auto simp: extraction_sources_def)
  show ?thesis
    using total
    by (simp add: extraction_sources_def count_sources_def parse_citations_def row_item_def
        truthy_def label_count_def)
qed

section \<open>Sentinels, whatever the letter case\<close>

lemma lower_upper_char: "lower_char (upper_char c) = lower_char c"
  by (simp add: char_defs)

lemma upper_lower_char: "upper_char (lower_char c) = upper_char c"
  by (simp add: char_defs)

lemma upper_eq_iff_lower_eq:
  "upper_char c = upper_char d \<longleftrightarrow> lower_char c = lower_char d"
proof
  assume "upper_char c = upper_char d"
  then have "lower_char (upper_char c) = lower_char (upper_char d)" by simp
  then show "lower_char c = lower_char d" by (simp add: lower_upper_char)
next
  assume "lower_char c = lower_char d"
  then have "upper_char (lower_char c) = upper_char (lower_char d)" by simp
  then show "upper_char c = upper_char d" by (simp add: upper_lower_char)
qed

lemma prefix_upper_lower:
  "prefix (map upper_char p) (map upper_char s) \<longleftrightarrow> prefix (map lower_char p) (map lower_char s)"
proof (induction p arbitrary: s)
  case Nil
  then show ?case by simp
next
  case (Cons x p)
  show ?case
  proof (cases s)
    case Nil
    then show ?thesis by simp
  next
    case (Cons y s')
    then show ?thesis using Cons.IH [of s'] by (simp add: upper_eq_iff_lower_eq)
  qed
qed

lemma py_in_upper_lower:
  "py_in (map upper_char p) (map upper_char s) \<longleftrightarrow> py_in (map lower_char p) (map lower_char s)"
proof (induction s)
  case Nil
  then show ?case by simp
next
  case (Cons c cs)
  have "prefix (map upper_char p) (map upper_char (c # cs))
      \<longleftrightarrow> prefix (map lower_char p) (map lower_char (c # cs))"
    by (rule prefix_upper_lower)
  then show ?case using Cons.IH by simp
qed

text \<open>
  On ASCII text, looking for the upper-case sentinel in the upper-case form is looking for
  the lower-case sentinel in the lower-case form.
\<close>

lemma not_found_upper_lower:
  assumes "is_ascii t"
  shows "py_in ''NOT_FOUND'' (py_upper t) \<longleftrightarrow> py_in ''not_found'' (py_lower t)"
    and "py_in ''NOT FOUND'' (py_upper t) \<longleftrightarrow> py_in ''not found'' (py_lower t)"
proof -
  have "py_in (map upper_char ''not_found'') (map upper_char t)
     \<longleftrightarrow> py_in (map lower_char ''not_found'') (map lower_char t)"
    by (rule py_in_upper_lower)
  then show "py_in ''NOT_FOUND'' (py_upper t) \<longleftrightarrow> py_in ''not_found'' (py_lower t)"
    by (simp add: py_upper_def py_lower_def char_defs)
  have "py_in (map upper_char ''not found'') (map upper_char t)
     \<longleftrightarrow> py_in (map lower_char ''not found'') (map lower_char t)"
    by (rule py_in_upper_lower)
  then show "py_in ''NOT FOUND'' (py_upper t) \<longleftrightarrow> py_in ''not found'' (py_lower t)"
    by (simp add: py_upper_def py_lower_def char_defs)
qed

lemma is_valid_lower:
  assumes "is_ascii t"
  shows "is_valid t \<longleftrightarrow>
     \<not> (py_lower t = [] \<or> py_in ''not_found'' (py_lower t) \<or> py_in ''not found'' (py_lower t))"
proof -
  have "py_lower t = [] \<longleftrightarrow> t = []" by (simp add: py_lower_def)
  then show ?thesis unfolding is_valid_def not_found_upper_lower [OF assms] by blast
qed

lemma value_str_Nil: "value_str [] = []"
  by (simp add: value_str_def py_strip_def)

lemma is_valid_Nil: "\<not> is_valid []"
  by (simp add: is_valid_def)

lemma traits_step_trimmed:
  "traits_step v n = (if is_valid (trimmed v) then n + 1 else n)"
proof (cases v)
  case None
  then show ?thesis by (simp add: traits_step_def trimmed_def is_valid_Nil)
next
  case (Some s)
  then show ?thesis
    by (cases "s = []") (simp_all add: traits_step_def trimmed_def is_valid_Nil value_str_Nil)
qed

lemma traits_loop_count:
  "traits_loop r names n = n + length (filter (\<lambda>f. is_valid (trimmed (row_get r f))) names)"
  by (induction names arbitrary: n) (simp_all add: traits_step_trimmed)

section \<open>What the scorer counts\<close>

lemma copies_agree_step:
  assumes "\<not> py_in ''NOT FOUND'' (py_upper (trimmed v))"
  shows "selector_step v n = traits_step v n" and "analytics_step v n = traits_step v n"
proof -
  show "selector_step v n = traits_step v n"
  proof (cases v)
    case None
    then show ?thesis by (simp add: selector_step_def traits_step_def)
  next
    case (Some s)
    then have "\<not> py_in ''NOT FOUND'' (py_upper (value_str s))"
      using assms by (simp add: trimmed_def)
    then show ?thesis using Some by (simp add: selector_step_def traits_step_def is_valid_def)
  qed
  then show "analytics_step v n = traits_step v n"
    by (simp add: selector_step_def analytics_step_def)
qed

lemma copies_agree_loop:
  assumes "\<forall>f \<in> set names. \<not> py_in ''NOT FOUND'' (py_upper (trimmed (row_get r f)))"
  shows "selector_loop r names n = traits_loop r names n"
    and "analytics_loop r names n = traits_loop r names n"
  using assms by (induction names arbitrary: n) (simp_all add: copies_agree_step)

text \<open>
  C1, as stated, has the scorer classify a value equal to \<open>none\<close>, \<open>null\<close> or
  \<open>not in paper\<close>, in any letter case, as not found. No copy of the scorer has such a
  test: on the row whose \<open>TRAIT\<close> cell is \<open>none\<close> the specification's classification
  says "not found", and both the extracted-traits page and the sidebar count the field.
\<close>

theorem scorer_classification_counterexample:
  "spec_not_found
     (trimmed (row_get \<lparr>cells = [''TRAIT'' \<mapsto> Some ''none''], extraction_accuracy_pct = None\<rparr>
        ''TRAIT''))
   \<and> traits_step
       (row_get \<lparr>cells = [''TRAIT'' \<mapsto> Some ''none''], extraction_accuracy_pct = None\<rparr> ''TRAIT'')
       0 = 1
   \<and> traits_loop \<lparr>cells = [''TRAIT'' \<mapsto> Some ''none''], extraction_accuracy_pct = None\<rparr>
       trait_field_names 0 = 1
   \<and> selector_step
       (row_get \<lparr>cells = [''TRAIT'' \<mapsto> Some ''none''], extraction_accuracy_pct = None\<rparr> ''TRAIT'')
       0 = 1
   \<and> selector_loop \<lparr>cells = [''TRAIT'' \<mapsto> Some ''none''], extraction_accuracy_pct = None\<rparr>
       trait_field_names 0 = 1"
  by (simp add: spec_not_found_def trimmed_def trait_field_names_def traits_step_def
      selector_step_def is_valid_def eval_defs)

text \<open>
  C1, amended. It is stated of every record and every field of the list whose trimmed
  value is not one of the literals \<open>Not in paper\<close>, \<open>None\<close>, \<open>NULL\<close> (the three
  that only the card display tests for; nothing is stated about them here).

  \<^item> The scorer of the extracted-traits page leaves the count as it is exactly when the
    trimmed value is empty (an absent, NULL or empty cell included) or its upper-case form
    contains \<open>NOT_FOUND\<close> or \<open>NOT FOUND\<close>, and adds one otherwise.
  \<^item> When the trimmed value is ASCII text, that is: exactly when, whatever the letter
    case, the value is empty or contains \<open>not_found\<close> or \<open>not found\<close>; and when it
    is moreover not \<open>none\<close>, \<open>null\<close> or \<open>not in paper\<close> in any letter case, that
    is the specification's classification.
  \<^item> The count that page's loop returns is the number of fields classified as found.
  \<^item> The copies of the sidebar and of the analytics page classify as that page does every
    value whose upper-case form does not contain \<open>NOT FOUND\<close> written with a space
    (nothing is stated here about their treatment of a value that does), and return the
    same count when no field of the list holds such a value.
\<close>

theorem scorer_classification:
  assumes "\<forall>f \<in> set names. trimmed (row_get r f) \<notin> {''Not in paper'', ''None'', ''NULL''}"
  shows "(\<forall>f \<in> set names.
            traits_step (row_get r f) n =
              (if trimmed (row_get r f) = []
                  \<or> py_in ''NOT_FOUND'' (py_upper (trimmed (row_get r f)))
                  \<or> py_in ''NOT FOUND'' (py_upper (trimmed (row_get r f)))
               then n else n + 1))
    \<and> (\<forall>f \<in> set names.
          is_ascii (trimmed (row_get r f)) \<longrightarrow>
            traits_step (row_get r f) n =
              (if py_lower (trimmed (row_get r f)) = []
                  \<or> py_in ''not_found'' (py_lower (trimmed (row_get r f)))
                  \<or> py_in ''not found'' (py_lower (trimmed (row_get r f)))
               then n else n + 1))
    \<and> (\<forall>f \<in> set names.
          is_ascii (trimmed (row_get r f)) \<longrightarrow>
          py_lower (trimmed (row_get r f)) \<notin> {''none'', ''null'', ''not in paper''} \<longrightarrow>
            traits_step (row_get r f) n =
              (if spec_not_found (trimmed (row_get r f)) then n else n + 1))
    \<and> traits_loop r names 0 =
        length (filter (\<lambda>f. \<not> (trimmed (row_get r f) = []
                  \<or> py_in ''NOT_FOUND'' (py_upper (trimmed (row_get r f)))
                  \<or> py_in ''NOT FOUND'' (py_upper (trimmed (row_get r f))))) names)
    \<and> (\<forall>f \<in> set names.
          \<not> py_in ''NOT FOUND'' (py_upper (trimmed (row_get r f))) \<longrightarrow>
            selector_step (row_get r f) n = traits_step (row_get r f) n
            \<and> analytics_step (row_get r f) n = traits_step (row_get r f) n)
    \<and> ((\<forall>f \<in> set names. \<not> py_in ''NOT FOUND'' (py_upper (trimmed (row_get r f)))) \<longrightarrow>
          selector_loop r names 0 = traits_loop r names 0
          \<and> analytics_loop r names 0 = traits_loop r names 0)"
proof -
  have valid: "is_valid t \<longleftrightarrow>
      \<not> (t = [] \<or> py_in ''NOT_FOUND'' (py_upper t) \<or> py_in ''NOT FOUND'' (py_upper t))" for t
    unfolding is_valid_def by blast
  have upper: "traits_step v k =
      (if trimmed v = [] \<or> py_in ''NOT_FOUND'' (py_upper (trimmed v))
          \<or> py_in ''NOT FOUND'' (py_upper (trimmed v))
       then k else k + 1)" for v k
    by (simp add: traits_step_trimmed valid)
  have lower: "traits_step v k =
      (if py_lower (trimmed v) = [] \<or> py_in ''not_found'' (py_lower (trimmed v))
          \<or> py_in ''not found'' (py_lower (trimmed v))
       then k else k + 1)" if "is_ascii (trimmed v)" for v k
    by (simp add: traits_step_trimmed is_valid_lower [OF that])
  have spec: "traits_step v k = (if spec_not_found (trimmed v) then k else k + 1)"
    if "is_ascii (trimmed v)"
      and "py_lower (trimmed v) \<notin> {''none'', ''null'', ''not in paper''}" for v k
    using that(2) by (simp add: lower [OF that(1)] spec_not_found_def Let_def)
  have count: "traits_loop r names 0 =
        length (filter (\<lambda>f. \<not> (trimmed (row_get r f) = []
                  \<or> py_in ''NOT_FOUND'' (py_upper (trimmed (row_get r f)))
                  \<or> py_in ''NOT FOUND'' (py_upper (trimmed (row_get r f))))) names)"
    by (simp add: traits_loop_count valid)
  have step: "selector_step v k = traits_step v k \<and> analytics_step v k = traits_step v k"
    if "\<not> py_in ''NOT FOUND'' (py_upper (trimmed v))" for v k
    using copies_agree_step [OF that] by simp
  have loop: "selector_loop r names 0 = traits_loop r names 0
      \<and> analytics_loop r names 0 = traits_loop r names 0"
    if "\<forall>f \<in> set names. \<not> py_in ''NOT FOUND'' (py_upper (trimmed (row_get r f)))"
    using copies_agree_loop [OF that] by simp
  show ?thesis using upper lower spec count step loop by blast
qed

theorem scorer_classification_witness:
  "traits_loop
     \<lparr>cells = [''TRAIT'' \<mapsto> Some ''Plant height'', ''GENE'' \<mapsto> Some ''none'',
               ''CHROMOSOME'' \<mapsto> Some ''Not_Found''],
      extraction_accuracy_pct = None\<rparr> [''TRAIT'', ''GENE'', ''CHROMOSOME''] 0 = 2
   \<and> selector_loop
     \<lparr>cells = [''TRAIT'' \<mapsto> Some ''Plant height'', ''GENE'' \<mapsto> Some ''none'',
               ''CHROMOSOME'' \<mapsto> Some ''Not_Found''],
      extraction_accuracy_pct = None\<rparr> [''TRAIT'', ''GENE'', ''CHROMOSOME''] 0 = 2
   \<and> spec_not_found (trimmed (row_get
     \<lparr>cells = [''TRAIT'' \<mapsto> Some ''Plant height'', ''GENE'' \<mapsto> Some ''none'',
               ''CHROMOSOME'' \<mapsto> Some ''Not_Found''],
      extraction_accuracy_pct = None\<rparr> ''CHROMOSOME''))
   \<and> traits_step (row_get
     \<lparr>cells = [''TRAIT'' \<mapsto> Some ''Plant height'', ''GENE'' \<mapsto> Some ''none'',
               ''CHROMOSOME'' \<mapsto> Some ''Not_Found''],
      extraction_accuracy_pct = None\<rparr> ''CHROMOSOME'') 0 = 0"
proof -
  let ?r = "\<lparr>cells = [''TRAIT'' \<mapsto> Some ''Plant height'', ''GENE'' \<mapsto> Some ''none'',
               ''CHROMOSOME'' \<mapsto> Some ''Not_Found''],
      extraction_accuracy_pct = None\<rparr>"
  let ?names = "[''TRAIT'', ''GENE'', ''CHROMOSOME'']"
  have h: "\<forall>f \<in> set ?names.
      trimmed (row_get ?r f) \<notin> {''Not in paper'', ''None'', ''NULL''}"
    by (simp add: trimmed_def eval_defs)
  have sp: "\<forall>f \<in> set ?names. \<not> py_in ''NOT FOUND'' (py_upper (trimmed (row_get ?r f)))"
    by (simp add: trimmed_def eval_defs)
  have c: "''CHROMOSOME'' \<in> set ?names" by simp
  have a: "is_ascii (trimmed (row_get ?r ''CHROMOSOME''))"
    by (simp add: is_ascii_def trimmed_def eval_defs)
  have l: "py_lower (trimmed (row_get ?r ''CHROMOSOME'')) \<notin> {''none'', ''null'', ''not in paper''}"
    by (simp add: trimmed_def eval_defs)
  have nf: "spec_not_found (trimmed (row_get ?r ''CHROMOSOME''))"
    by (simp add: spec_not_found_def trimmed_def eval_defs)
  have v: "traits_loop ?r ?names 0 = 2"
    by (simp add: traits_step_def is_valid_def eval_defs)
  note T = scorer_classification [OF h, of 0]
  from T sp have s: "selector_loop ?r ?names 0 = traits_loop ?r ?names 0" by blast
  from T c a l have "traits_step (row_get ?r ''CHROMOSOME'') 0 =
      (if spec_not_found (trimmed (row_get ?r ''CHROMOSOME'')) then 0 else 0 + 1)"
    by blast
  then have z: "traits_step (row_get ?r ''CHROMOSOME'') 0 = 0" using nf by simp
  show ?thesis using v s nf z by simp
qed

section \<open>Quotes around a value\<close>

text \<open>
  A quote character at either end of a non-empty text does not change what
  \<^const>\<open>is_valid\<close> says of it: the sentinels neither begin nor end with a quote.
\<close>

lemma py_in_Cons_other:
  assumes "p \<noteq> []" "hd p \<noteq> c"
  shows "py_in p (c # s) \<longleftrightarrow> py_in p s"
proof (cases p)
  case Nil
  then show ?thesis using assms(1) by simp
next
  case (Cons x xs)
  then have "x \<noteq> c" using assms(2) by simp
  then show ?thesis using Cons by simp
qed

lemma upper_quote: "is_quote c \<Longrightarrow> upper_char c = c"
  unfolding is_quote_def dquote_def squote_def
  by (erule disjE) (simp_all add: char_defs)

lemma quote_not_sentinel_ends:
  "is_quote c \<Longrightarrow> c \<noteq> CHR ''N'' \<and> c \<noteq> CHR ''D''"
  unfolding is_quote_def dquote_def squote_def
  by (erule disjE) simp_all


lemma py_in_snoc_other:
  assumes "p \<noteq> []" "last p \<noteq> c"
  shows "py_in p (s @ [c]) \<longleftrightarrow> py_in p s"
proof
  assume "py_in p (s @ [c])"
  then obtain a b where ab: "s @ [c] = a @ p @ b" unfolding py_in_iff by blast
  show "py_in p s"
  proof (cases b rule: rev_cases)
    case Nil
    have "p = butlast p @ [last p]" using assms(1) by simp
    then have "s @ [c] = (a @ butlast p) @ [last p]" using ab Nil by simp
    then have "c = last p" by (simp only: append1_eq_conv)
    then show ?thesis using assms(2) by simp
  next
    case (snoc b' x)
    then have "s @ [c] = (a @ p @ b') @ [x]" using ab by simp
    then have "s = a @ p @ b'" by (simp only: append1_eq_conv)
    then show ?thesis unfolding py_in_iff by blast
  qed
next
  assume "py_in p s"
  then obtain a b where "s = a @ p @ b" unfolding py_in_iff by blast
  then have "s @ [c] = a @ p @ (b @ [c])" by simp
  then show "py_in p (s @ [c])" unfolding py_in_iff by blast
qed


lemma sentinel_ends:
  "''NOT_FOUND'' \<noteq> []" "''NOT FOUND'' \<noteq> []"
  "hd ''NOT_FOUND'' = CHR ''N''" "hd ''NOT FOUND'' = CHR ''N''"
  "last ''NOT_FOUND'' = CHR ''D''" "last ''NOT FOUND'' = CHR ''D''"
  by simp_all

lemma is_valid_Cons_quote:
  assumes "is_quote c" "s \<noteq> []"
  shows "is_valid (c # s) = is_valid s"
proof -
  have n: "CHR ''N'' \<noteq> c" using quote_not_sentinel_ends [OF assms(1)] by blast
  have a: "py_in ''NOT_FOUND'' (c # py_upper s) = py_in ''NOT_FOUND'' (py_upper s)"
    by (rule py_in_Cons_other) (simp_all only: sentinel_ends n not_False_eq_True)
  have b: "py_in ''NOT FOUND'' (c # py_upper s) = py_in ''NOT FOUND'' (py_upper s)"
    by (rule py_in_Cons_other) (simp_all only: sentinel_ends n not_False_eq_True)
  have u: "py_upper (c # s) = c # py_upper s"
    by (simp add: py_upper_def upper_quote [OF assms(1)])
  show ?thesis unfolding is_valid_def u a b using assms(2) by simp
qed


lemma is_valid_snoc_quote:
  assumes "is_quote c" "s \<noteq> []"
  shows "is_valid (s @ [c]) = is_valid s"
proof -
  have d: "CHR ''D'' \<noteq> c" using quote_not_sentinel_ends [OF assms(1)] by blast
  have a: "py_in ''NOT_FOUND'' (py_upper s @ [c]) = py_in ''NOT_FOUND'' (py_upper s)"
    by (rule py_in_snoc_other) (simp_all only: sentinel_ends d not_False_eq_True)
  have b: "py_in ''NOT FOUND'' (py_upper s @ [c]) = py_in ''NOT FOUND'' (py_upper s)"
    by (rule py_in_snoc_other) (simp_all only: sentinel_ends d not_False_eq_True)
  have u: "py_upper (s @ [c]) = py_upper s @ [c]"
    by (simp add: py_upper_def upper_quote [OF assms(1)])
  show ?thesis unfolding is_valid_def u a b using assms(2) by simp
qed

lemma is_valid_dropWhile:
  assumes "is_quote q" "dropWhile (\<lambda>c. c = q) s \<noteq> []"
  shows "is_valid (dropWhile (\<lambda>c. c = q) s) = is_valid s"
  using assms(2)
proof (induction s)
  case Nil
  then show ?case by simp
next
  case (Cons x s)
  show ?case
  proof (cases "x = q")
    case True
    then have ne: "dropWhile (\<lambda>c. c = q) s \<noteq> []" using Cons.prems by simp
    then have "s \<noteq> []" by auto
    then have "is_valid (x # s) = is_valid s"
      using True assms(1) by (simp add: is_valid_Cons_quote)
    then show ?thesis using True Cons.IH [OF ne] by simp
  next
    case False
    then show ?thesis by simp
  qed
qed

lemma is_valid_rstrip:
  assumes "is_quote q" "rev (dropWhile (\<lambda>c. c = q) (rev s)) \<noteq> []"
  shows "is_valid (rev (dropWhile (\<lambda>c. c = q) (rev s))) = is_valid s"
  using assms(2)
proof (induction s rule: rev_induct)
  case Nil
  then show ?case by simp
next
  case (snoc x s)
  show ?case
  proof (cases "x = q")
    case True
    then have ne: "rev (dropWhile (\<lambda>c. c = q) (rev s)) \<noteq> []" using snoc.prems by simp
    then have "s \<noteq> []" by auto
    then have "is_valid (s @ [x]) = is_valid s"
      using True assms(1) by (simp add: is_valid_snoc_quote)
    then show ?thesis using True snoc.IH [OF ne] by simp
  next
    case False
    then show ?thesis by simp
  qed
qed

lemma is_valid_py_strip:
  assumes "is_quote q" "py_strip q s \<noteq> []"
  shows "is_valid (py_strip q s) = is_valid s"
proof -
  let ?l = "dropWhile (\<lambda>c. c = q) s"
  have r: "rev (dropWhile (\<lambda>c. c = q) (rev ?l)) \<noteq> []" using assms(2) by (simp add: py_strip_def)
  have "?l \<noteq> []"
  proof
    assume "?l = []"
    with r show False by simp
  qed
  then have "is_valid ?l = is_valid s" using assms(1) by (rule is_valid_dropWhile [rotated])
  moreover have "is_valid (py_strip q s) = is_valid ?l"
    unfolding py_strip_def using assms(1) r by (rule is_valid_rstrip)
  ultimately show ?thesis by simp
qed

lemma py_strip_Nil: "py_strip q [] = []"
  by (simp add: py_strip_def)

lemma is_valid_value_str:
  assumes "value_str v \<noteq> []"
  shows "is_valid (value_str v) = is_valid v"
proof -
  have q: "is_quote squote" "is_quote dquote" by (simp_all add: is_quote_def)
  have ne: "py_strip dquote v \<noteq> []"
  proof
    assume "py_strip dquote v = []"
    then have "value_str v = []" by (simp add: value_str_def py_strip_Nil)
    with assms show False by simp
  qed
  have "is_valid (value_str v) = is_valid (py_strip dquote v)"
    unfolding value_str_def using q(1) assms [unfolded value_str_def] by (rule is_valid_py_strip)
  also have "\<dots> = is_valid v" using q(2) ne by (rule is_valid_py_strip)
  finally show ?thesis .
qed

lemma is_valid_drop_quote:
  assumes "drop_quote s \<noteq> []"
  shows "is_valid (drop_quote s) = is_valid s"
proof (cases s)
  case Nil
  then show ?thesis by (simp add: drop_quote_def)
next
  case (Cons c cs)
  show ?thesis
  proof (cases "is_quote c")
    case True
    then have d: "drop_quote s = cs" using Cons by (simp add: drop_quote_def)
    then have "cs \<noteq> []" using assms by simp
    then show ?thesis using True d Cons by (simp add: is_valid_Cons_quote)
  next
    case False
    then show ?thesis using Cons by (simp add: drop_quote_def)
  qed
qed

lemma is_valid_rev_drop_quote:
  assumes "drop_quote (rev s) \<noteq> []"
  shows "is_valid (rev (drop_quote (rev s))) = is_valid s"
proof (cases s rule: rev_cases)
  case Nil
  then show ?thesis by (simp add: drop_quote_def)
next
  case (snoc cs c)
  show ?thesis
  proof (cases "is_quote c")
    case True
    then have d: "drop_quote (rev s) = rev cs" using snoc by (simp add: drop_quote_def)
    then have "cs \<noteq> []" using assms by simp
    then show ?thesis using True d snoc by (simp add: is_valid_snoc_quote)
  next
    case False
    then show ?thesis using snoc by (simp add: drop_quote_def)
  qed
qed

lemma is_valid_one_layer:
  assumes "spec_strip_one_layer v \<noteq> []"
  shows "is_valid (spec_strip_one_layer v) = is_valid v"
proof -
  have r: "drop_quote (rev (drop_quote v)) \<noteq> []"
    using assms by (simp add: spec_strip_one_layer_def)
  have ne: "drop_quote v \<noteq> []"
  proof
    assume "drop_quote v = []"
    then have "drop_quote (rev (drop_quote v)) = []" by (simp add: drop_quote_def)
    with r show False by simp
  qed
  have "is_valid (spec_strip_one_layer v) = is_valid (drop_quote v)"
    unfolding spec_strip_one_layer_def using r by (rule is_valid_rev_drop_quote)
  also have "\<dots> = is_valid v" using ne by (rule is_valid_drop_quote)
  finally show ?thesis .
qed


lemma drop_quote_empty:
  "drop_quote t = [] \<Longrightarrow> t = [] \<or> (\<exists>q. is_quote q \<and> t = [q])"
  by (cases t) (simp_all add: drop_quote_def split: if_splits)

lemma drop_quote_single:
  assumes "drop_quote t = [q]" "is_quote q"
  shows "\<exists>q'. is_quote q' \<and> t = [q', q]"
proof (cases t)
  case Nil
  then show ?thesis using assms(1) by (simp add: drop_quote_def)
next
  case (Cons x xs)
  show ?thesis
  proof (cases "is_quote x")
    case True
    then have "xs = [q]" using assms(1) Cons by (simp add: drop_quote_def)
    then show ?thesis using True Cons by simp
  next
    case False
    then have "t = [q]" using assms(1) Cons by (simp add: drop_quote_def)
    then show ?thesis using False Cons assms(2) by simp
  qed
qed

lemma value_str_quotes:
  assumes "is_quote q" "is_quote q'"
  shows "value_str [q] = []" "value_str [q', q] = []"
proof -
  have q: "q = dquote \<or> q = squote" using assms(1) by (simp add: is_quote_def)
  have q': "q' = dquote \<or> q' = squote" using assms(2) by (simp add: is_quote_def)
  show "value_str [q] = []"
    using q by (rule disjE) (simp_all add: value_str_def py_strip_def dquote_def squote_def)
  show "value_str [q', q] = []"
  proof (rule disjE [OF q])
    assume "q = dquote"
    then show ?thesis
      using q' by (elim disjE) (simp_all add: value_str_def py_strip_def dquote_def squote_def)
  next
    assume "q = squote"
    then show ?thesis
      using q' by (elim disjE) (simp_all add: value_str_def py_strip_def dquote_def squote_def)
  qed
qed

lemma one_layer_empty:
  assumes "spec_strip_one_layer v = []"
  shows "value_str v = []"
proof -
  have "drop_quote (rev (drop_quote v)) = []"
    using assms by (simp add: spec_strip_one_layer_def)
  then consider "rev (drop_quote v) = []" | q where "is_quote q" "rev (drop_quote v) = [q]"
    using drop_quote_empty by blast
  then show ?thesis
  proof cases
    case 1
    then have "drop_quote v = []" by simp
    then consider "v = []" | q where "is_quote q" "v = [q]"
      using drop_quote_empty by blast
    then show ?thesis
    proof cases
      case 1
      then show ?thesis by (simp add: value_str_def py_strip_def)
    next
      case 2
      then show ?thesis by (simp add: value_str_quotes)
    qed
  next
    case 2
    then have "drop_quote v = [q]" by (simp add: rev_singleton_conv)
    then obtain q' where "is_quote q'" "v = [q', q]"
      using drop_quote_single 2(1) by blast
    then show ?thesis using 2(1) by (simp add: value_str_quotes)
  qed
qed

text \<open>
  C6, as stated, has the scorer classify every value with one layer of quotes stripped.
  The scorer strips every leading and trailing double quote, then every leading and
  trailing single quote. On the value made of three double quotes nothing is left and the
  field is not counted; with one layer stripped a double quote is left, a non-empty value
  that is no sentinel.
\<close>

theorem quote_stripping_counterexample:
  "traits_step (Some [dquote, dquote, dquote]) 0 = 0
   \<and> is_valid (spec_strip_one_layer [dquote, dquote, dquote])
   \<and> \<not> spec_not_found (spec_strip_one_layer [dquote, dquote, dquote])"
  by (simp add: traits_step_def is_valid_def spec_not_found_def spec_strip_one_layer_def
      drop_quote_def is_quote_def eval_defs)

text \<open>
  C6, amended. The scorer strips all leading and trailing double quotes, then all leading
  and trailing single quotes. When nothing is left the value is classified as not found;
  otherwise the scorer classifies the value as it classifies the value with one layer of
  leading and trailing quote characters stripped. The quoted sentinel \<open>"NOT_FOUND"\<close>
  and the bare \<open>NOT_FOUND\<close> are classified alike.
\<close>

theorem quote_stripping:
  "traits_step (Some v) n =
     (if value_str v = [] then n
      else if is_valid (spec_strip_one_layer v) then n + 1 else n)
   \<and> traits_step (Some (dquote # ''NOT_FOUND'' @ [dquote])) n = traits_step (Some ''NOT_FOUND'') n"
proof -
  have a: "traits_step (Some v) n =
     (if value_str v = [] then n
      else if is_valid (spec_strip_one_layer v) then n + 1 else n)"
  proof (cases "value_str v = []")
    case True
    then show ?thesis by (simp add: traits_step_def is_valid_def)
  next
    case False
    then have ne: "spec_strip_one_layer v \<noteq> []" using one_layer_empty by blast
    have "v \<noteq> []" using False by (auto simp: value_str_def py_strip_def)
    then have "traits_step (Some v) n = (if is_valid (value_str v) then n + 1 else n)"
      by (simp add: traits_step_def)
    also have "is_valid (value_str v) = is_valid v" using False by (rule is_valid_value_str)
    also have "is_valid v = is_valid (spec_strip_one_layer v)"
      using ne by (rule is_valid_one_layer [symmetric])
    finally show ?thesis using False by simp
  qed
  have b: "traits_step (Some (dquote # ''NOT_FOUND'' @ [dquote])) n
      = traits_step (Some ''NOT_FOUND'') n"
    by (simp add: traits_step_def is_valid_def eval_defs)
  show ?thesis using a b by (rule conjI)
qed

section \<open>The cards against the scorer\<close>

lemma card_found_iff:
  "is_found_card (render_card label v) \<longleftrightarrow> \<not> is_missing (clean_value v)"
  by (cases "clean_value v") (simp_all add: render_card_def Let_def is_missing_def)

lemma not_missing_iff:
  "\<not> is_missing (clean_value v) \<longleftrightarrow>
     is_valid (trimmed v) \<and> trimmed v \<notin> {''Not in paper'', ''None'', ''NULL''}"
proof (cases v)
  case None
  then show ?thesis by (simp add: clean_value_def is_missing_def trimmed_def is_valid_Nil)
next
  case (Some s)
  show ?thesis
  proof (cases "s = []")
    case True
    then show ?thesis using Some
      by (simp add: clean_value_def is_missing_def trimmed_def is_valid_Nil value_str_Nil)
  next
    case False
    then have "clean_value v = Some (value_str s)" "trimmed v = value_str s"
      using Some by (simp_all add: clean_value_def trimmed_def)
    then show ?thesis by (auto simp: is_missing_def is_valid_def)
  qed
qed

lemma row_item_get: "row_item r k = Inr v \<Longrightarrow> row_get r k = v"
  by (simp add: row_item_def row_get_def split: option.splits)

lemma render_cards_map:
  "render_cards r fs = Inr cs \<Longrightarrow>
     cs = map (\<lambda>(label, field). render_card label (row_get r (py_upper field))) fs"
proof (induction fs arbitrary: cs)
  case Nil
  then show ?case by simp
next
  case (Cons lf fs)
  obtain label field where lf: "lf = (label, field)" by (cases lf)
  from Cons.prems obtain v cs' where
    v: "row_item r (py_upper field) = Inr v" and
    cs': "render_cards r fs = Inr cs'" and
    cs: "cs = render_card label v # cs'"
    unfolding lf by (auto split: sum.splits)
  show ?case using Cons.IH [OF cs'] row_item_get [OF v] cs lf by simp
qed

lemma found_cards_count:
  assumes "render_cards r fs = Inr cs"
  shows "length (filter is_found_card cs) =
     length (filter (\<lambda>f. \<not> is_missing (clean_value (row_get r f))) (map (\<lambda>(label, field). py_upper field) fs))"
  unfolding render_cards_map [OF assms]
  by (induction fs) (auto simp: card_found_iff)

lemma card_names:
  "map (\<lambda>(label, field). py_upper field) trait_fields =
     [''TRAIT'', ''GERMPLASM_NAME'', ''GENOME_VERSION'', ''CHROMOSOME'', ''PHYSICAL_POSITION'',
      ''GENE'', ''SNP_NAME'', ''VARIANT_ID'', ''VARIANT_TYPE'', ''EFFECT_SIZE'',
      ''GWAS_MODEL'', ''ALLELE'', ''ANNOTATION'', ''CANDIDATE_REGION'']"
  by (simp add: trait_fields_def py_upper_def char_defs)


lemma names_split:
  "trait_field_names =
     take 11 (map (\<lambda>(label, field). py_upper field) trait_fields) @ [''EVIDENCE_TYPE''] @
     drop 11 (map (\<lambda>(label, field). py_upper field) trait_fields)"
  unfolding card_names by (simp add: trait_field_names_def)

lemma filter_length_split:
  "length (filter P trait_field_names) =
     length (filter P (map (\<lambda>(label, field). py_upper field) trait_fields))
     + (if P ''EVIDENCE_TYPE'' then 1 else 0)"
proof -
  let ?C = "map (\<lambda>(label, field). py_upper field) trait_fields"
  have "length (filter P ?C) = length (filter P (take 11 ?C @ drop 11 ?C))"
    by (simp only: append_take_drop_id)
  also have "\<dots> = length (filter P (take 11 ?C)) + length (filter P (drop 11 ?C))"
    by (simp only: filter_append length_append)
  finally have c: "length (filter P ?C) =
      length (filter P (take 11 ?C)) + length (filter P (drop 11 ?C))" .
  have "length (filter P trait_field_names) =
      length (filter P (take 11 ?C)) + length (filter P [''EVIDENCE_TYPE''])
      + length (filter P (drop 11 ?C))"
    by (subst names_split) (simp only: filter_append length_append add.assoc)
  then show ?thesis using c by simp
qed

lemma filter_length_mono:
  "(\<And>x. x \<in> set xs \<Longrightarrow> P x \<Longrightarrow> Q x) \<Longrightarrow> length (filter P xs) \<le> length (filter Q xs)"
  by (induction xs) auto

lemma page_view:
  assumes "page_extracted_traits r = Inr view"
  shows "render_cards r trait_fields = Inr (trait_cards view)"
    and "fst (traits_found view) = traits_loop r trait_field_names 0"
  using assms
  by (auto simp: page_extracted_traits_def traits_stats_def Let_def split: sum.splits)

text \<open>
  C10, as stated, has one card per scored field, marked as the scorer counted the field,
  so that the cards marked "Found" are as many as the count on display. The card list
  has no entry for \<open>EVIDENCE_TYPE\<close>, which the scorer counts: on the row whose only
  populated field is the evidence type the page shows 1 of 15 traits found and no card
  marked "Found".
\<close>

theorem cards_against_scorer_counterexample:
  "page_extracted_traits
     \<lparr>cells = [''TRAIT'' \<mapsto> Some ''NOT_FOUND'', ''GERMPLASM_NAME'' \<mapsto> Some ''NOT_FOUND'',
        ''GENOME_VERSION'' \<mapsto> Some ''NOT_FOUND'', ''CHROMOSOME'' \<mapsto> Some ''NOT_FOUND'',
        ''PHYSICAL_POSITION'' \<mapsto> Some ''NOT_FOUND'', ''GENE'' \<mapsto> Some ''NOT_FOUND'',
        ''SNP_NAME'' \<mapsto> Some ''NOT_FOUND'', ''VARIANT_ID'' \<mapsto> Some ''NOT_FOUND'',
        ''VARIANT_TYPE'' \<mapsto> Some ''NOT_FOUND'', ''EFFECT_SIZE'' \<mapsto> Some ''NOT_FOUND'',
        ''GWAS_MODEL'' \<mapsto> Some ''NOT_FOUND'', ''EVIDENCE_TYPE'' \<mapsto> Some ''GWAS'',
        ''ALLELE'' \<mapsto> Some ''NOT_FOUND'', ''ANNOTATION'' \<mapsto> Some ''NOT_FOUND'',
        ''CANDIDATE_REGION'' \<mapsto> Some ''NOT_FOUND''],
      extraction_accuracy_pct = None\<rparr>
   = Inr \<lparr>traits_found = (1, 15), accuracy = 100 / 15, not_reported = 14,
         evidence_type = ''GWAS'',
         trait_cards =
          [NotFoundCard ''Trait'', NotFoundCard ''Germplasm Name'',
           NotFoundCard ''Genome Version'', NotFoundCard ''Chromosome'',
           NotFoundCard ''Physical Position'', NotFoundCard ''Gene'',
           NotFoundCard ''SNP Name'', NotFoundCard ''Variant ID'',
           NotFoundCard ''Variant Type'', NotFoundCard ''Effect Size'',
           NotFoundCard ''GWAS Model'', NotFoundCard ''Allele'',
           NotFoundCard ''Annotation'', NotFoundCard ''Candidate Region'']\<rparr>
   \<and> length (filter is_found_card
         [NotFoundCard ''Trait'', NotFoundCard ''Germplasm Name'',
           NotFoundCard ''Genome Version'', NotFoundCard ''Chromosome'',
           NotFoundCard ''Physical Position'', NotFoundCard ''Gene'',
           NotFoundCard ''SNP Name'', NotFoundCard ''Variant ID'',
           NotFoundCard ''Variant Type'', NotFoundCard ''Effect Size'',
           NotFoundCard ''GWAS Model'', NotFoundCard ''Allele'',
           NotFoundCard ''Annotation'', NotFoundCard ''Candidate Region'']) = 0"
  by (simp add: page_extracted_traits_def traits_stats_def trait_field_names_def trait_fields_def
      traits_step_def is_valid_def render_card_def clean_value_def is_missing_def eval_defs)

text \<open>
  C10, amended. When the page renders (every card column is a key of the row), its cards
  are those of the fourteen entries of \<^const>\<open>trait_fields\<close>, in order. A card marked
  "Found" is always for a value the scorer counts, so the cards marked "Found" are never
  more than the count on display. For a value whose trimmed form is not one of the
  literals \<open>Not in paper\<close>, \<open>None\<close>, \<open>NULL\<close> (nothing is stated here about those
  three, which only the card tests for) the card is marked "Found" exactly when the scorer
  counts the value; when no card column holds such a literal, the cards marked "Found"
  and the contribution of \<open>EVIDENCE_TYPE\<close>, which has no card, add up to the count on
  display.
\<close>

theorem cards_against_scorer:
  assumes "page_extracted_traits r = Inr view"
  shows "trait_cards view =
       map (\<lambda>(label, field). render_card label (row_get r (py_upper field))) trait_fields
    \<and> (is_found_card (render_card label v) \<longrightarrow> traits_step v n = n + 1)
    \<and> (trimmed v \<notin> {''Not in paper'', ''None'', ''NULL''} \<longrightarrow>
         (is_found_card (render_card label v) \<longleftrightarrow> traits_step v n = n + 1))
    \<and> length (filter is_found_card (trait_cards view)) \<le> fst (traits_found view)
    \<and> ((\<forall>(label, field) \<in> set trait_fields.
           trimmed (row_get r (py_upper field)) \<notin> {''Not in paper'', ''None'', ''NULL''}) \<longrightarrow>
         length (filter is_found_card (trait_cards view))
           + traits_step (row_get r ''EVIDENCE_TYPE'') 0 = fst (traits_found view))"
proof -
  let ?C = "map (\<lambda>(label, field). py_upper field) trait_fields"
  let ?M = "\<lambda>f. \<not> is_missing (clean_value (row_get r f))"
  let ?F = "\<lambda>f. is_valid (trimmed (row_get r f))"
  note cards = page_view(1) [OF assms]
  note found = page_view(2) [OF assms]
  have a: "trait_cards view =
       map (\<lambda>(label, field). render_card label (row_get r (py_upper field))) trait_fields"
    using cards by (rule render_cards_map)
  have b: "is_found_card (render_card label v) \<longrightarrow> traits_step v n = n + 1"
    by (simp add: card_found_iff not_missing_iff traits_step_trimmed)
  have c: "trimmed v \<notin> {''Not in paper'', ''None'', ''NULL''} \<longrightarrow>
         (is_found_card (render_card label v) \<longleftrightarrow> traits_step v n = n + 1)"
    by (simp add: card_found_iff not_missing_iff traits_step_trimmed)
  have cnt: "length (filter is_found_card (trait_cards view)) = length (filter ?M ?C)"
    using cards by (rule found_cards_count)
  have tot: "fst (traits_found view) =
      length (filter ?F ?C) + traits_step (row_get r ''EVIDENCE_TYPE'') 0"
    unfolding found traits_loop_count filter_length_split [of ?F]
    by (simp add: traits_step_trimmed)
  have "length (filter ?M ?C) \<le> length (filter ?F ?C)"
    by (rule filter_length_mono) (simp add: not_missing_iff)
  then have d: "length (filter is_found_card (trait_cards view)) \<le> fst (traits_found view)"
    using cnt tot by simp
  have e: "length (filter is_found_card (trait_cards view))
           + traits_step (row_get r ''EVIDENCE_TYPE'') 0 = fst (traits_found view)"
    if h: "\<forall>(label, field) \<in> set trait_fields.
           trimmed (row_get r (py_upper field)) \<notin> {''Not in paper'', ''None'', ''NULL''}"
  proof -
    have "\<And>f. f \<in> set ?C \<Longrightarrow> ?M f = ?F f"
      using h by (auto simp: not_missing_iff)
    then have "filter ?M ?C = filter ?F ?C" by (intro filter_cong refl)
    then show ?thesis using cnt tot by simp
  qed
  show ?thesis using a b c d e by blast
qed

theorem cards_against_scorer_witness:
  "page_extracted_traits
     \<lparr>cells = [''TRAIT'' \<mapsto> Some ''Plant height'', ''GERMPLASM_NAME'' \<mapsto> Some ''NOT_FOUND'',
        ''GENOME_VERSION'' \<mapsto> Some ''NOT_FOUND'', ''CHROMOSOME'' \<mapsto> Some ''NOT_FOUND'',
        ''PHYSICAL_POSITION'' \<mapsto> Some ''NOT_FOUND'', ''GENE'' \<mapsto> Some ''NOT_FOUND'',
        ''SNP_NAME'' \<mapsto> Some ''NOT_FOUND'', ''VARIANT_ID'' \<mapsto> Some ''NOT_FOUND'',
        ''VARIANT_TYPE'' \<mapsto> Some ''NOT_FOUND'', ''EFFECT_SIZE'' \<mapsto> Some ''NOT_FOUND'',
        ''GWAS_MODEL'' \<mapsto> Some ''NOT_FOUND'', ''EVIDENCE_TYPE'' \<mapsto> Some ''GWAS'',
        ''ALLELE'' \<mapsto> Some ''NOT_FOUND'', ''ANNOTATION'' \<mapsto> Some ''NOT_FOUND'',
        ''CANDIDATE_REGION'' \<mapsto> Some ''NOT_FOUND''],
      extraction_accuracy_pct = None\<rparr>
   = Inr \<lparr>traits_found = (2, 15), accuracy = 200 / 15, not_reported = 13,
         evidence_type = ''GWAS'',
         trait_cards =
          [FoundCard ''Trait'' ''Plant height'', NotFoundCard ''Germplasm Name'',
           NotFoundCard ''Genome Version'', NotFoundCard ''Chromosome'',
           NotFoundCard ''Physical Position'', NotFoundCard ''Gene'',
           NotFoundCard ''SNP Name'', NotFoundCard ''Variant ID'',
           NotFoundCard ''Variant Type'', NotFoundCard ''Effect Size'',
           NotFoundCard ''GWAS Model'', NotFoundCard ''Allele'',
           NotFoundCard ''Annotation'', NotFoundCard ''Candidate Region'']\<rparr>
   \<and> length (filter is_found_card
         [FoundCard ''Trait'' ''Plant height'', NotFoundCard ''Germplasm Name'',
           NotFoundCard ''Genome Version'', NotFoundCard ''Chromosome'',
           NotFoundCard ''Physical Position'', NotFoundCard ''Gene'',
           NotFoundCard ''SNP Name'', NotFoundCard ''Variant ID'',
           NotFoundCard ''Variant Type'', NotFoundCard ''Effect Size'',
           NotFoundCard ''GWAS Model'', NotFoundCard ''Allele'',
           NotFoundCard ''Annotation'', NotFoundCard ''Candidate Region'']) + 1 = 2"
proof -
  let ?r = "\<lparr>cells = [''TRAIT'' \<mapsto> Some ''Plant height'', ''GERMPLASM_NAME'' \<mapsto> Some ''NOT_FOUND'',
        ''GENOME_VERSION'' \<mapsto> Some ''NOT_FOUND'', ''CHROMOSOME'' \<mapsto> Some ''NOT_FOUND'',
        ''PHYSICAL_POSITION'' \<mapsto> Some ''NOT_FOUND'', ''GENE'' \<mapsto> Some ''NOT_FOUND'',
        ''SNP_NAME'' \<mapsto> Some ''NOT_FOUND'', ''VARIANT_ID'' \<mapsto> Some ''NOT_FOUND'',
        ''VARIANT_TYPE'' \<mapsto> Some ''NOT_FOUND'', ''EFFECT_SIZE'' \<mapsto> Some ''NOT_FOUND'',
        ''GWAS_MODEL'' \<mapsto> Some ''NOT_FOUND'', ''EVIDENCE_TYPE'' \<mapsto> Some ''GWAS'',
        ''ALLELE'' \<mapsto> Some ''NOT_FOUND'', ''ANNOTATION'' \<mapsto> Some ''NOT_FOUND'',
        ''CANDIDATE_REGION'' \<mapsto> Some ''NOT_FOUND''],
      extraction_accuracy_pct = None\<rparr>"
  let ?view = "\<lparr>traits_found = (2, 15), accuracy = 200 / 15, not_reported = 13,
         evidence_type = ''GWAS'',
         trait_cards =
          [FoundCard ''Trait'' ''Plant height'', NotFoundCard ''Germplasm Name'',
           NotFoundCard ''Genome Version'', NotFoundCard ''Chromosome'',
           NotFoundCard ''Physical Position'', NotFoundCard ''Gene'',
           NotFoundCard ''SNP Name'', NotFoundCard ''Variant ID'',
           NotFoundCard ''Variant Type'', NotFoundCard ''Effect Size'',
           NotFoundCard ''GWAS Model'', NotFoundCard ''Allele'',
           NotFoundCard ''Annotation'', NotFoundCard ''Candidate Region'']\<rparr>"
  have h: "page_extracted_traits ?r = Inr ?view"
    by (simp add: page_extracted_traits_def traits_stats_def trait_field_names_def
        trait_fields_def traits_step_def is_valid_def render_card_def clean_value_def
        is_missing_def eval_defs)
  have h2: "\<forall>(label, field) \<in> set trait_fields.
      trimmed (row_get ?r (py_upper field)) \<notin> {''Not in paper'', ''None'', ''NULL''}"
    by (simp add: trait_fields_def trimmed_def eval_defs)
  have ev: "traits_step (row_get ?r ''EVIDENCE_TYPE'') 0 = 1"
    by (simp add: traits_step_def is_valid_def eval_defs)
  from cards_against_scorer [OF h] h2
  have "length (filter is_found_card (trait_cards ?view))
      + traits_step (row_get ?r ''EVIDENCE_TYPE'') 0 = fst (traits_found ?view)"
    by blast
  then show ?thesis using h ev by simp
qed

section \<open>Further properties of the scorer\<close>

lemma selector_analytics_step: "selector_step v n = analytics_step v n"
  by (simp add: selector_step_def analytics_step_def)

lemma traits_selector_step: "n \<le> m \<Longrightarrow> traits_step v n \<le> selector_step v m"
  by (simp add: traits_step_def selector_step_def is_valid_def split: option.splits)

lemma traits_selector_loop: "n \<le> m \<Longrightarrow> traits_loop r names n \<le> selector_loop r names m"
  by (induction names arbitrary: n m) (simp_all add: traits_selector_step)

text \<open>
  The sidebar's copy and the analytics page's copy of the scorer count the same fields
  on every row and every field list.
\<close>

theorem sidebar_and_analytics_agree:
  "selector_loop r names n = analytics_loop r names n
   \<and> fst (analytics_summary names r) = selector_loop r names 0"
proof -
  have "selector_loop r names n = analytics_loop r names n" for n
    by (induction names arbitrary: n) (simp_all add: selector_analytics_step)
  then show ?thesis by (simp add: analytics_summary_def Let_def)
qed

text \<open>
  The extracted-traits page never counts more fields than the sidebar: its test is the
  sidebar's test and one more.
\<close>

theorem traits_count_at_most_sidebar:
  "traits_loop r names 0 \<le> selector_loop r names 0"
  by (rule traits_selector_loop) simp

text \<open>
  The count is at most the number of fields, and the accuracy lies between 0 and 100.
\<close>

theorem found_at_most_total:
  "(case traits_stats names r of
      (actual_found, total_traits, actual_accuracy) \<Rightarrow>
        actual_found \<le> total_traits \<and> total_traits = length names
        \<and> 0 \<le> actual_accuracy \<and> actual_accuracy \<le> 100)"
proof -
  have le: "traits_loop r names 0 \<le> length names"
    by (simp add: traits_loop_count)
  show ?thesis
  proof (cases "names = []")
    case True
    then show ?thesis by (simp add: traits_stats_def)
  next
    case False
    then have pos: "0 < real (length names)" by simp
    have "real (traits_loop r names 0) * 100 / real (length names) \<le> 100"
      using pos le by (simp add: pos_divide_le_eq)
    then show ?thesis using le False by (simp add: traits_stats_def Let_def)
  qed
qed

text \<open>
  The literals \<open>None\<close>, \<open>NULL\<close> and \<open>Not in paper\<close> are counted by the scorer of
  the extracted-traits page, while the card of the same page marks them "Not Found".
\<close>

theorem card_literals_are_counted:
  "traits_step (Some ''None'') n = n + 1
   \<and> render_card ''Trait'' (Some ''None'') = NotFoundCard ''Trait''
   \<and> traits_step (Some ''NULL'') n = n + 1
   \<and> render_card ''Trait'' (Some ''NULL'') = NotFoundCard ''Trait''
   \<and> traits_step (Some ''Not in paper'') n = n + 1
   \<and> render_card ''Trait'' (Some ''Not in paper'') = NotFoundCard ''Trait''"
  by (simp add: traits_step_def is_valid_def render_card_def clean_value_def is_missing_def
      eval_defs)

text \<open>
  When every field of the list holds \<open>NOT_FOUND\<close>, the count and the accuracy are 0.
\<close>

theorem all_not_found:
  assumes "\<forall>f \<in> set names. row_get r f = Some ''NOT_FOUND''"
  shows "traits_stats names r = (0, length names, 0)"
proof -
  have "\<not> is_valid (trimmed (Some ''NOT_FOUND''))"
    by (simp add: trimmed_def is_valid_def eval_defs)
  then have "filter (\<lambda>f. is_valid (trimmed (row_get r f))) names = []"
    using assms by (simp add: filter_empty_conv)
  then have "traits_loop r names 0 = 0" by (simp add: traits_loop_count)
  then show ?thesis by (simp add: traits_stats_def Let_def)
qed

theorem all_not_found_witness:
  "traits_stats [''TRAIT'', ''GENE'']
     \<lparr>cells = [''TRAIT'' \<mapsto> Some ''NOT_FOUND'', ''GENE'' \<mapsto> Some ''NOT_FOUND''],
      extraction_accuracy_pct = None\<rparr> = (0, 2, 0)"
proof -
  let ?r = "\<lparr>cells = [''TRAIT'' \<mapsto> Some ''NOT_FOUND'', ''GENE'' \<mapsto> Some ''NOT_FOUND''],
      extraction_accuracy_pct = None\<rparr>"
  have h: "\<forall>f \<in> set [''TRAIT'', ''GENE'']. row_get ?r f = Some ''NOT_FOUND''"
    by (simp add: row_get_def)
  from all_not_found [OF h] show ?thesis by simp
qed

text \<open>
  When every field of a non-empty list holds a text that passes the scorer's test, the
  count is the number of fields and the accuracy is 100.
\<close>

theorem all_found:
  assumes "\<forall>f \<in> set names. is_valid (trimmed (row_get r f))" and "names \<noteq> []"
  shows "traits_stats names r = (length names, length names, 100)"
proof -
  have "filter (\<lambda>f. is_valid (trimmed (row_get r f))) names = names"
    using assms(1) by (simp add: filter_id_conv)
  then have "traits_loop r names 0 = length names" by (simp add: traits_loop_count)
  then show ?thesis using assms(2) by (simp add: traits_stats_def Let_def)
qed

theorem all_found_witness:
  "traits_stats [''TRAIT'', ''GENE'']
     \<lparr>cells = [''TRAIT'' \<mapsto> Some ''Plant height'', ''GENE'' \<mapsto> Some ''BRCA1''],
      extraction_accuracy_pct = None\<rparr> = (2, 2, 100)"
proof -
  let ?r = "\<lparr>cells = [''TRAIT'' \<mapsto> Some ''Plant height'', ''GENE'' \<mapsto> Some ''BRCA1''],
      extraction_accuracy_pct = None\<rparr>"
  have h: "\<forall>f \<in> set [''TRAIT'', ''GENE'']. is_valid (trimmed (row_get ?r f))"
    by (simp add: trimmed_def is_valid_def eval_defs)
  have n: "[''TRAIT'', ''GENE''] \<noteq> []" by simp
  from all_found [OF h n] show ?thesis by simp
qed

section \<open>The card loop on a missing key\<close>

lemma row_item_error: "row_item r k = Inl e \<Longrightarrow> e = KeyError"
  by (simp add: row_item_def split: option.splits)

lemma render_cards_missing:
  "(label, field) \<in> set fs \<Longrightarrow> cells r (py_upper field) = None \<Longrightarrow>
     render_cards r fs = Inl KeyError"
proof (induction fs)
  case Nil
  then show ?case by simp
next
  case (Cons lf fs)
  obtain l f where lf: "lf = (l, f)" by (cases lf)
  show ?case
  proof (cases "row_item r (py_upper f)")
    case (Inl e)
    then show ?thesis using lf row_item_error [OF Inl] by simp
  next
    case (Inr v)
    then have "(l, f) \<noteq> (label, field)"
      using Cons.prems(2) by (auto simp: row_item_def)
    then have "(label, field) \<in> set fs" using Cons.prems(1) lf by auto
    then have "render_cards r fs = Inl KeyError" using Cons.IH Cons.prems(2) by blast
    then show ?thesis using lf Inr by simp
  qed
qed

text \<open>
  Unlike the scorer, the card loop indexes the row: when a card column is missing as a
  key, the page fails with \<^verbatim>\<open>KeyError\<close>.
\<close>

theorem missing_card_key_raises:
  assumes "(label, field) \<in> set trait_fields" and "cells r (py_upper field) = None"
  shows "page_extracted_traits r = Inl KeyError"
proof -
  have "render_cards r trait_fields = Inl KeyError"
    using assms by (rule render_cards_missing)
  then show ?thesis
    by (cases "row_item r ''EVIDENCE_TYPE''")
       (auto simp: page_extracted_traits_def traits_stats_def Let_def dest: row_item_error)
qed

theorem missing_card_key_raises_witness:
  "page_extracted_traits
     \<lparr>cells = [''EVIDENCE_TYPE'' \<mapsto> Some ''GWAS''], extraction_accuracy_pct = None\<rparr>
   = Inl KeyError"
proof -
  let ?r = "\<lparr>cells = [''EVIDENCE_TYPE'' \<mapsto> Some ''GWAS''], extraction_accuracy_pct = None\<rparr>"
  have m: "(''Trait'', ''trait'') \<in> set trait_fields" by (simp add: trait_fields_def)
  have k: "cells ?r (py_upper ''trait'') = None" by (simp add: py_upper_def char_defs)
  from missing_card_key_raises [OF m k] show ?thesis .
qed

end
